theory Spec2Isabelle
  imports Main "HOL-Library.AList" "HOL-Library.Sublist"
begin

section \<open>The item service of \<open>express_basics.js\<close>\<close>

text \<open>
  The development embeds the in-memory item service: the seeded \<open>store\<close>, \<open>validateItem\<close>
  with both of its paths (the Joi schema and the manual fallback), \<open>authStub\<close>, the route
  handlers for \<open>/me\<close> and \<open>/items\<close>, the 404 handler and the central error handler.
  A request is modelled at the moment it enters its route handler: the middleware in front
  of the routes (helmet, cors, morgan, the rate limiter, \<open>express.json\<close>) is not part of
  the model, and \<open>/health\<close>, whose answer carries a floating-point uptime, is left out.
\<close>

subsection \<open>Values\<close>

text \<open>
  What \<open>JSON.parse\<close> produces. An object is an association list in insertion order whose
  first binding of a key is the one a property read sees. A \<open>char\<close> stands for one code
  unit of a JavaScript string, so the model covers the strings over the code units
  0..255; numbers are the integers, of which the code only ever asks whether they are zero
  (in \<open>Boolean(body.done)\<close>).
\<close>

datatype json =
    JNull
  | JBool bool
  | JNum int
  | JStr string
  | JArr "json list"
  | JObj "(string \<times> json) list"

type_synonym obj = "(string \<times> json) list"

text \<open>
  \<open>req.body\<close> as \<open>express.json()\<close> leaves it: in its default strict mode the parser only
  accepts a JSON text that is an object or an array, and a request without a JSON body has
  \<open>req.body\<close> either undefined (\<open>NoBody\<close>) or the empty object (\<open>ObjBody []\<close>), depending
  on the version of the framework.
\<close>

datatype body = NoBody | ArrBody "json list" | ObjBody obj

text \<open>
  \<open>body.name\<close> and \<open>body.done\<close>: a property read yields \<open>None\<close> for \<open>undefined\<close>. An
  array has neither property. The read of \<open>NoBody\<close> is never reached in the source, which
  tests \<open>!body\<close> first.
\<close>

fun get_prop :: "body \<Rightarrow> string \<Rightarrow> json option" where
  "get_prop (ObjBody kvs) k = map_of kvs k"
| "get_prop (ArrBody xs) k = None"
| "get_prop NoBody k = None"

text \<open>JavaScript truthiness of a value, and \<open>Boolean(x)\<close> of a property that may be absent.\<close>

fun truthy :: "json \<Rightarrow> bool" where
  "truthy JNull = False"
| "truthy (JBool b) = b"
| "truthy (JNum n) = (n \<noteq> 0)"
| "truthy (JStr s) = (s \<noteq> [])"
| "truthy (JArr xs) = True"
| "truthy (JObj kvs) = True"

definition Boolean :: "json option \<Rightarrow> bool" where
  "Boolean v = (case v of None \<Rightarrow> False | Some j \<Rightarrow> truthy j)"

text \<open>
  \<open>String.prototype.trim\<close>: the white space and line terminators among the code units
  0..255 are TAB, LF, VT, FF, CR, SP and NBSP.
\<close>

definition is_space :: "char \<Rightarrow> bool" where
  "is_space c = (of_char c \<in> {9, 10, 11, 12, 13, 32, 160 :: nat})"

definition trim :: "string \<Rightarrow> string" where
  "trim s = rev (dropWhile is_space (rev (dropWhile is_space s)))"

text \<open>\<open>String.prototype.toLowerCase\<close> on the code units 0..255.\<close>

definition lower_char :: "char \<Rightarrow> char" where
  "lower_char c =
     (let n = of_char c :: nat
      in if (65 \<le> n \<and> n \<le> 90) \<or> (192 \<le> n \<and> n \<le> 222 \<and> n \<noteq> 215)
         then char_of (n + 32) else c)"

definition toLowerCase :: "string \<Rightarrow> string" where
  "toLowerCase s = map lower_char s"

text \<open>\<open>Array.prototype.join\<close> on strings.\<close>

fun join :: "string \<Rightarrow> string list \<Rightarrow> string" where
  "join sep [] = []"
| "join sep [x] = x"
| "join sep (x # y # xs) = x @ sep @ join sep (y # xs)"

text \<open>
  \<open>String(n)\<close> for a non-negative integer below \<open>10^21\<close>, which \<open>Date.now()\<close> always is:
  the decimal digits, most significant first.
\<close>

definition digit_char :: "nat \<Rightarrow> char" where
  "digit_char d = char_of (48 + d)"

fun String_nat :: "nat \<Rightarrow> string" where
  "String_nat n = (if n < 10 then [digit_char n] else String_nat (n div 10) @ [digit_char (n mod 10)])"

declare String_nat.simps [simp del]

text \<open>
  Object spread \<open>{ ...base, ...src }\<close>: every own property of \<open>src\<close> is written into
  \<open>base\<close>, replacing the value of a key that is there and appending a new key. Spreading
  \<open>undefined\<close> (\<open>None\<close>) writes nothing.
\<close>

definition spread :: "obj \<Rightarrow> obj option \<Rightarrow> obj" where
  "spread base src =
     (case src of
        None \<Rightarrow> base
      | Some kvs \<Rightarrow> fold (\<lambda>(k, v) acc. AList.update k v acc) (AList.clearjunk kvs) base)"

text \<open>\<open>Array.prototype.findIndex\<close>; \<open>None\<close> is the source's \<open>-1\<close>.\<close>

fun findIndex :: "('a \<Rightarrow> bool) \<Rightarrow> 'a list \<Rightarrow> nat option" where
  "findIndex p [] = None"
| "findIndex p (x # xs) =
     (if p x then Some 0 else (case findIndex p xs of None \<Rightarrow> None | Some i \<Rightarrow> Some (Suc i)))"

subsection \<open>Errors and responses\<close>

text \<open>An \<open>Error\<close> object with its message and its optional \<open>status\<close> property.\<close>

datatype js_error = Error (message: string) (err_status: "nat option")

record response =
  status :: nat
  payload :: json

text \<open>
  The central error handler: \<open>err.status || 500\<close> and \<open>err.message || 'internal_error'\<close>.
\<close>

definition errorHandler :: "js_error \<Rightarrow> response" where
  "errorHandler err =
     \<lparr> status = (case err_status err of None \<Rightarrow> 500 | Some n \<Rightarrow> if n = 0 then 500 else n),
       payload = JObj [(''error'',
         JStr (if message err = [] then ''internal_error'' else message err))] \<rparr>"

subsection \<open>Validation\<close>

text \<open>
  The result \<open>{ error, value }\<close> of \<open>schema.validate(body)\<close>: the messages of
  \<open>error.details\<close> when there is an error, and the validated value, where \<open>None\<close> is
  \<open>undefined\<close>.
\<close>

record validation_result =
  joi_error :: "string list option"
  joi_value :: "obj option"

text \<open>
  The schema of the source,
  \<^verbatim>\<open>Joi.object({ name: Joi.string().min(1).max(120).required(),
               done: Joi.boolean().default(false) })\<close>,
  under the library's default options (the first error ends the validation, values are
  converted, unknown keys are refused, and a schema is optional unless marked required).
  The library is not part of the repository; the three definitions below follow its
  documented behaviour, rule by rule. No \<open>trim()\<close> rule is part of the schema, so a string
  is measured and returned as it came.
\<close>

definition quoted :: "string \<Rightarrow> string" where
  "quoted k = [CHR 0x22] @ k @ [CHR 0x22]"

text \<open>\<open>Joi.string().min(1).max(120).required()\<close> on the key \<open>name\<close>: the error, if any.\<close>

fun joi_name :: "json option \<Rightarrow> string option" where
  "joi_name None = Some (quoted ''name'' @ '' is required'')"
| "joi_name (Some (JStr s)) =
     (if s = [] then Some (quoted ''name'' @ '' is not allowed to be empty'')
      else if length s < 1 then
        Some (quoted ''name'' @ '' length must be at least 1 characters long'')
      else if 120 < length s then
        Some (quoted ''name'' @ '' length must be less than or equal to 120 characters long'')
      else None)"
| "joi_name (Some v) = Some (quoted ''name'' @ '' must be a string'')"

text \<open>
  \<open>Joi.boolean().default(false)\<close> on the key \<open>done\<close>: an absent key takes the default, a
  boolean is kept, the strings \<open>true\<close> and \<open>false\<close> are converted in any letter case and
  with any surrounding white space (\<open>' TRUE'\<close> is \<open>true\<close>), and everything else is an
  error.
\<close>

fun joi_done :: "json option \<Rightarrow> string + json" where
  "joi_done None = Inr (JBool False)"
| "joi_done (Some (JBool b)) = Inr (JBool b)"
| "joi_done (Some (JStr s)) =
     (if toLowerCase (trim s) = ''true'' then Inr (JBool True)
      else if toLowerCase (trim s) = ''false'' then Inr (JBool False)
      else Inl (quoted ''done'' @ '' must be a boolean''))"
| "joi_done (Some v) = Inl (quoted ''done'' @ '' must be a boolean'')"

text \<open>
  \<open>Joi.object({...}).validate(body)\<close>: \<open>undefined\<close> passes unchanged, anything that is not
  an object is refused, the keys of the schema are checked in their order, then the first
  key the schema does not know is refused. The value is the input object with \<open>done\<close>
  set to its converted or default value; on an error the source does not read it.
\<close>

definition joi_validate :: "body \<Rightarrow> validation_result" where
  "joi_validate b =
     (case b of
        NoBody \<Rightarrow> \<lparr> joi_error = None, joi_value = None \<rparr>
      | ArrBody xs \<Rightarrow>
          \<lparr> joi_error = Some [quoted ''value'' @ '' must be of type object''], joi_value = None \<rparr>
      | ObjBody kvs \<Rightarrow>
          (case joi_name (map_of kvs ''name'') of
             Some m \<Rightarrow> \<lparr> joi_error = Some [m], joi_value = Some kvs \<rparr>
           | None \<Rightarrow>
               (case joi_done (map_of kvs ''done'') of
                  Inl m \<Rightarrow> \<lparr> joi_error = Some [m], joi_value = Some kvs \<rparr>
                | Inr d \<Rightarrow>
                    (case filter (\<lambda>k. k \<noteq> ''name'' \<and> k \<noteq> ''done'') (map fst kvs) of
                       k # ks \<Rightarrow>
                         \<lparr> joi_error = Some [quoted k @ '' is not allowed''], joi_value = Some kvs \<rparr>
                     | [] \<Rightarrow>
                         \<lparr> joi_error = None, joi_value = Some (AList.update ''done'' d kvs) \<rparr>))))"

text \<open>
  \<open>const itemSchema = Joi ? Joi.object({...}) : null\<close>; the argument says whether the
  \<open>joi\<close> package could be loaded.
\<close>

definition itemSchema :: "bool \<Rightarrow> (body \<Rightarrow> validation_result) option" where
  "itemSchema joi = (if joi then Some joi_validate else None)"

text \<open>
  \<open>validateItem\<close>: a thrown error is \<open>Inl\<close>. With a schema, its verdict decides. Without
  one, the manual check refuses a falsy body, a \<open>name\<close> that is not a string and a
  \<open>name\<close> that trims to the empty string, and returns the trimmed name with
  \<open>Boolean(body.done)\<close>.
\<close>

definition validateItem :: "(body \<Rightarrow> validation_result) option \<Rightarrow> body \<Rightarrow> js_error + obj option" where
  "validateItem schema b =
     (case schema of
        Some validate \<Rightarrow>
          (case joi_error (validate b) of
             Some details \<Rightarrow> Inl (Error (join ''; '' details) (Some 400))
           | None \<Rightarrow> Inr (joi_value (validate b)))
      | None \<Rightarrow>
          (if b = NoBody then Inl (Error ''name is required'' (Some 400))
           else (case get_prop b ''name'' of
                   Some (JStr s) \<Rightarrow>
                     (if trim s = [] then Inl (Error ''name is required'' (Some 400))
                      else Inr (Some [(''name'', JStr (trim s)),
                                      (''done'', JBool (Boolean (get_prop b ''done'')))]))
                 | _ \<Rightarrow> Inl (Error ''name is required'' (Some 400)))))"

subsection \<open>The token check\<close>

text \<open>
  \<open>authStub\<close>: \<open>req.headers['x-demo-token']\<close> is \<open>undefined\<close> for a header that was not
  sent; \<open>!token\<close> also holds for a header sent with an empty value. On success the
  result is \<open>req.user\<close>.
\<close>

type_synonym headers = "(string \<times> string) list"

definition authStub :: "headers \<Rightarrow> js_error + obj" where
  "authStub hs =
     (case map_of hs ''x-demo-token'' of
        None \<Rightarrow> Inl (Error ''missing token'' (Some 401))
      | Some token \<Rightarrow>
          (if token = [] then Inl (Error ''missing token'' (Some 401))
           else Inr [(''id'', JStr ''user-123''), (''token'', JStr token)]))"

subsection \<open>The store and the routes\<close>

record store =
  items :: "obj list"

definition initial_store :: store where
  "initial_store =
     \<lparr> items =
         [ [(''id'', JStr ''1''), (''name'', JStr ''First''), (''done'', JBool False)],
           [(''id'', JStr ''2''), (''name'', JStr ''Second''), (''done'', JBool True)] ] \<rparr>"

text \<open>The test \<open>x.id === id\<close> of the routes, for a route parameter \<open>id\<close>.\<close>

definition has_id :: "string \<Rightarrow> obj \<Rightarrow> bool" where
  "has_id pid x = (map_of x ''id'' = Some (JStr pid))"

text \<open>\<open>GET /me\<close>: the token check, then \<open>res.json({ user: req.user })\<close>.\<close>

definition get_me :: "headers \<Rightarrow> store \<Rightarrow> response \<times> store" where
  "get_me hs s =
     (case authStub hs of
        Inl err \<Rightarrow> (errorHandler err, s)
      | Inr user \<Rightarrow> (\<lparr> status = 200, payload = JObj [(''user'', JObj user)] \<rparr>, s))"

text \<open>\<open>GET /items\<close>: \<open>res.json({ data: store.items })\<close>.\<close>

definition get_items :: "store \<Rightarrow> response \<times> store" where
  "get_items s = (\<lparr> status = 200, payload = JObj [(''data'', JArr (map JObj (items s)))] \<rparr>, s)"

text \<open>
  \<open>POST /items\<close>; \<open>now\<close> is the reading of \<open>Date.now()\<close> in the handler, in milliseconds
  since the epoch.
\<close>

definition post_items :: "bool \<Rightarrow> body \<Rightarrow> nat \<Rightarrow> store \<Rightarrow> response \<times> store" where
  "post_items joi b now s =
     (case validateItem (itemSchema joi) b of
        Inl err \<Rightarrow> (errorHandler err, s)
      | Inr validated \<Rightarrow>
          (let item = spread [(''id'', JStr (String_nat now))] validated
           in (\<lparr> status = 201, payload = JObj [(''item'', JObj item)] \<rparr>,
               s\<lparr> items := items s @ [item] \<rparr>)))"

text \<open>\<open>PUT /items/:id\<close>.\<close>

definition put_items :: "bool \<Rightarrow> string \<Rightarrow> body \<Rightarrow> store \<Rightarrow> response \<times> store" where
  "put_items joi pid b s =
     (case validateItem (itemSchema joi) b of
        Inl err \<Rightarrow> (errorHandler err, s)
      | Inr validated \<Rightarrow>
          (case findIndex (has_id pid) (items s) of
             None \<Rightarrow> (\<lparr> status = 404, payload = JObj [(''error'', JStr ''not_found'')] \<rparr>, s)
           | Some idx \<Rightarrow>
               (let item = spread (items s ! idx) validated
                in (\<lparr> status = 200, payload = JObj [(''item'', JObj item)] \<rparr>,
                    s\<lparr> items := (items s)[idx := item] \<rparr>))))"

text \<open>\<open>DELETE /items/:id\<close>.\<close>

definition delete_items :: "string \<Rightarrow> store \<Rightarrow> response \<times> store" where
  "delete_items pid s =
     (let n_before = length (items s);
          s' = s\<lparr> items := filter (\<lambda>x. \<not> has_id pid x) (items s) \<rparr>;
          removed = (n_before \<noteq> length (items s'))
      in (\<lparr> status = 200, payload = JObj [(''removed'', JBool removed)] \<rparr>, s'))"

text \<open>The 404 handler for a path no route matches.\<close>

definition not_found :: "string \<Rightarrow> store \<Rightarrow> response \<times> store" where
  "not_found path s =
     (\<lparr> status = 404, payload = JObj [(''error'', JStr ''not_found''), (''path'', JStr path)] \<rparr>, s)"

text \<open>A request as it reaches the routes, and the server's step on it.\<close>

datatype request =
    GetMe headers
  | GetItems
  | PostItems body nat
  | PutItems string body
  | DeleteItems string
  | Unmatched string

fun handle :: "bool \<Rightarrow> request \<Rightarrow> store \<Rightarrow> response \<times> store" where
  "handle joi (GetMe hs) s = get_me hs s"
| "handle joi GetItems s = get_items s"
| "handle joi (PostItems b now) s = post_items joi b now s"
| "handle joi (PutItems pid b) s = put_items joi pid b s"
| "handle joi (DeleteItems pid) s = delete_items pid s"
| "handle joi (Unmatched path) s = not_found path s"

text \<open>A run of requests, one after the other: the responses in order and the final store.\<close>

fun run :: "bool \<Rightarrow> request list \<Rightarrow> store \<Rightarrow> response list \<times> store" where
  "run joi [] s = ([], s)"
| "run joi (r # rs) s =
     (let (resp, s') = handle joi r s;
          (resps, s'') = run joi rs s'
      in (resp # resps, s''))"

text \<open>Whether \<open>validateItem\<close> returns for a body instead of throwing.\<close>

definition accepts :: "bool \<Rightarrow> body \<Rightarrow> bool" where
  "accepts joi b = (case validateItem (itemSchema joi) b of Inl err \<Rightarrow> False | Inr v \<Rightarrow> True)"

text \<open>The ids of the stored items, in the order of the store.\<close>

definition ids :: "store \<Rightarrow> json option list" where
  "ids s = map (\<lambda>x. map_of x ''id'') (items s)"

text \<open>The id that \<open>POST /items\<close> gives an item created at the clock reading \<open>now\<close>.\<close>

definition id_at :: "nat \<Rightarrow> json option" where
  "id_at now = Some (JStr (String_nat now))"

text \<open>
  The clock readings of the successful appends of a run, in order: those of the
  \<open>POST /items\<close> requests whose body passes validation.
\<close>

fun append_times :: "bool \<Rightarrow> request list \<Rightarrow> nat list" where
  "append_times joi [] = []"
| "append_times joi (PostItems b now # rs) =
     (if accepts joi b then now # append_times joi rs else append_times joi rs)"
| "append_times joi (r # rs) = append_times joi rs"

text \<open>
  The successful appends and deletes among the responses of a run: the answers with
  status 201, and the answers \<open>{removed: true}\<close>.
\<close>

definition appended :: "response list \<Rightarrow> nat" where
  "appended resps = length (filter (\<lambda>r. status r = 201) resps)"

definition deleted :: "response list \<Rightarrow> nat" where
  "deleted resps = length (filter (\<lambda>r. payload r = JObj [(''removed'', JBool True)]) resps)"

text \<open>
  The store after two \<open>POST /items\<close> requests that read the same clock value: the two
  seed items and two items that share the id \<open>'1730000000000'\<close>.
\<close>

definition same_instant_store :: store where
  "same_instant_store =
     snd (run False
       [PostItems (ObjBody [(''name'', JStr ''A'')]) 1730000000000,
        PostItems (ObjBody [(''name'', JStr ''B'')]) 1730000000000] initial_store)"

section \<open>Auxiliary facts\<close>

subsection \<open>Errors, lookups and spreads\<close>

lemma validateItem_error_status:
  "validateItem sch b = Inl e \<Longrightarrow> err_status e = Some 400"
  by (auto simp: validateItem_def split: option.splits if_splits json.splits)

lemma errorHandler_400:
  "err_status e = Some 400 \<Longrightarrow> status (errorHandler e) = 400"
  by (simp add: errorHandler_def)

lemma findIndex_None: "findIndex p xs = None \<longleftrightarrow> (\<forall>x\<in>set xs. \<not> p x)"
  by (induction xs) (auto split: option.splits)

lemma findIndex_Some:
  "findIndex p xs = Some i \<longleftrightarrow> i < length xs \<and> p (xs ! i) \<and> (\<forall>j<i. \<not> p (xs ! j))"
proof (induction xs arbitrary: i)
  case Nil
  then show ?case by simp
next
  case (Cons x xs)
  show ?case
  proof (cases "p x")
    case True
    then show ?thesis by (cases i) auto
  next
    case False
    show ?thesis
    proof (cases i)
      case 0
      with False show ?thesis by (auto split: option.splits)
    next
      case (Suc k)
      have "(\<forall>j<Suc k. \<not> p ((x # xs) ! j)) \<longleftrightarrow> (\<forall>j<k. \<not> p (xs ! j))"
        using False by (auto simp: less_Suc_eq_0_disj)
      with False Suc Cons.IH [of k] show ?thesis
        by (auto split: option.splits)
    qed
  qed
qed

lemma map_of_fold_update:
  "distinct (map fst ps) \<Longrightarrow>
   map_of (fold (\<lambda>(k, v) acc. AList.update k v acc) ps base) k =
     (case map_of ps k of Some v \<Rightarrow> Some v | None \<Rightarrow> map_of base k)"
proof (induction ps arbitrary: base)
  case Nil
  then show ?case by simp
next
  case (Cons p ps)
  obtain k' v' where p: "p = (k', v')" by (cases p)
  have nk: "map_of ps k' = None"
    using Cons.prems p by (simp add: map_of_eq_None_iff)
  show ?case
    using Cons.IH [of "AList.update k' v' base"] Cons.prems p nk
    by (auto simp: update_conv' split: option.splits)
qed

lemma map_of_spread:
  "map_of (spread base src) k =
     (case src of
        None \<Rightarrow> map_of base k
      | Some kvs \<Rightarrow> (case map_of kvs k of Some v \<Rightarrow> Some v | None \<Rightarrow> map_of base k))"
  by (cases src) (simp_all add: spread_def map_of_fold_update distinct_clearjunk map_of_clearjunk)

lemma joi_validate_keys:
  "joi_error (joi_validate b) = None \<Longrightarrow> joi_value (joi_validate b) = Some kvs \<Longrightarrow>
   k \<noteq> ''name'' \<Longrightarrow> k \<noteq> ''done'' \<Longrightarrow> map_of kvs k = None"
  apply (cases b)
    apply (auto simp: joi_validate_def split: option.splits sum.splits list.splits)
  apply (auto simp: update_conv' map_of_eq_None_iff filter_empty_conv)
  done

lemma validated_keys:
  "validateItem (itemSchema joi) b = Inr (Some kvs) \<Longrightarrow>
   k \<noteq> ''name'' \<Longrightarrow> k \<noteq> ''done'' \<Longrightarrow> map_of kvs k = None"
  by (cases joi)
     (auto simp: validateItem_def itemSchema_def joi_validate_keys
           split: option.splits if_splits json.splits)

lemma spread_validated_other:
  assumes "validateItem (itemSchema joi) b = Inr v" "k \<noteq> ''name''" "k \<noteq> ''done''"
  shows "map_of (spread x v) k = map_of x k"
  using assms validated_keys [of joi b _ k]
  by (cases v) (auto simp: map_of_spread)

subsection \<open>Single requests\<close>

lemma run_Cons_fst:
  "fst (run joi (r # rs) s) = fst (handle joi r s) # fst (run joi rs (snd (handle joi r s)))"
  by (simp split: prod.splits)

lemma run_Cons_snd:
  "snd (run joi (r # rs) s) = snd (run joi rs (snd (handle joi r s)))"
  by (simp split: prod.splits)

lemma post_items_length:
  "length (items (snd (post_items joi b now s))) = length (items s) + (if accepts joi b then 1 else 0)"
  by (auto simp: post_items_def accepts_def Let_def split: sum.splits)

lemma run_posts_length:
  "length (items (snd (run joi (map (\<lambda>(b, now). PostItems b now) ps) s))) =
     length (items s) + length (filter (\<lambda>(b, now). accepts joi b) ps)"
proof (induction ps arbitrary: s)
  case Nil
  then show ?case by simp
next
  case (Cons p ps)
  obtain b now where p: "p = (b, now)" by (cases p)
  show ?case
    using Cons.IH [of "snd (post_items joi b now s)"] post_items_length [of joi b now s]
    by (simp add: p run_Cons_snd del: run.simps)
qed

lemma length_filter_eq_iff:
  "length (filter P xs) = length xs \<longleftrightarrow> (\<forall>x\<in>set xs. P x)"
proof (induction xs)
  case Nil
  then show ?case by simp
next
  case (Cons x xs)
  have le: "length (filter P xs) \<le> length xs" by (rule length_filter_le)
  show ?case
  proof (cases "P x")
    case True
    with Cons show ?thesis by simp
  next
    case False
    from le have "length (filter P xs) \<noteq> Suc (length xs)" by arith
    with False show ?thesis by simp
  qed
qed

lemma delete_items_status: "status (fst (delete_items pid s)) = 200"
  by (simp add: delete_items_def Let_def)

lemma delete_items_store:
  "snd (delete_items pid s) = s\<lparr> items := filter (\<lambda>x. \<not> has_id pid x) (items s) \<rparr>"
  by (simp add: delete_items_def Let_def)

lemma delete_items_payload:
  "payload (fst (delete_items pid s)) = JObj [(''removed'', JBool (\<exists>x\<in>set (items s). has_id pid x))]"
proof -
  have "length (items s) \<noteq> length (filter (\<lambda>x. \<not> has_id pid x) (items s))
        \<longleftrightarrow> (\<exists>x\<in>set (items s). has_id pid x)"
    using length_filter_eq_iff [of "\<lambda>x. \<not> has_id pid x" "items s"] by auto
  then show ?thesis by (simp add: delete_items_def Let_def)
qed

lemma put_items_refused:
  "\<not> accepts joi b \<Longrightarrow>
   status (fst (put_items joi pid b s)) = 400 \<and> snd (put_items joi pid b s) = s"
  by (auto simp: put_items_def accepts_def errorHandler_400 validateItem_error_status
           split: sum.splits)

lemma put_items_unknown:
  "accepts joi b \<Longrightarrow> \<forall>x\<in>set (items s). \<not> has_id pid x \<Longrightarrow>
   put_items joi pid b s =
     (\<lparr> status = 404, payload = JObj [(''error'', JStr ''not_found'')] \<rparr>, s)"
proof -
  assume a: "accepts joi b" and u: "\<forall>x\<in>set (items s). \<not> has_id pid x"
  from u have "findIndex (has_id pid) (items s) = None" by (simp add: findIndex_None)
  with a show ?thesis
    by (auto simp: put_items_def accepts_def split: sum.splits)
qed

lemma put_items_known:
  "accepts joi b \<Longrightarrow> \<exists>x\<in>set (items s). has_id pid x \<Longrightarrow>
   status (fst (put_items joi pid b s)) = 200"
proof -
  assume a: "accepts joi b" and k: "\<exists>x\<in>set (items s). has_id pid x"
  from k have "findIndex (has_id pid) (items s) \<noteq> None" by (simp add: findIndex_None)
  with a show ?thesis
    by (auto simp: put_items_def accepts_def Let_def split: sum.splits)
qed

subsection \<open>What validation accepts\<close>

text \<open>
  Blank names, and the shape of a validated value on each of the two paths.
\<close>

lemma trim_blank: "\<forall>c\<in>set s. is_space c \<Longrightarrow> trim s = []"
proof -
  assume "\<forall>c\<in>set s. is_space c"
  then have d: "dropWhile is_space s = []" by simp
  show ?thesis unfolding trim_def d by simp
qed

lemma validateItem_fallback_blank:
  "map_of kvs ''name'' = Some (JStr s) \<Longrightarrow> \<forall>c\<in>set s. is_space c \<Longrightarrow>
   validateItem (itemSchema False) (ObjBody kvs) = Inl (Error ''name is required'' (Some 400))"
  by (simp add: validateItem_def itemSchema_def trim_blank)

lemma validateItem_joi_empty:
  "map_of kvs ''name'' = Some (JStr '''') \<Longrightarrow>
   \<exists>m. validateItem (itemSchema True) (ObjBody kvs) = Inl (Error m (Some 400))"
  by (simp add: validateItem_def itemSchema_def joi_validate_def)

lemma post_items_refused:
  "validateItem (itemSchema joi) b = Inl e \<Longrightarrow>
   status (fst (post_items joi b now s)) = 400 \<and> snd (post_items joi b now s) = s"
  by (simp add: post_items_def errorHandler_400 validateItem_error_status)

lemma joi_name_ok:
  "joi_name x = None \<longleftrightarrow> (\<exists>s. x = Some (JStr s) \<and> 1 \<le> length s \<and> length s \<le> 120)"
  by (cases x rule: joi_name.cases) (auto simp: Suc_le_eq)

lemma joi_done_bool: "joi_done x = Inr d \<Longrightarrow> \<exists>c. d = JBool c"
  by (cases x rule: joi_done.cases) (auto split: if_splits)

lemma validateItem_joi_shape:
  assumes "validateItem (itemSchema True) b = Inr v"
  shows "(b = NoBody \<and> v = None)
     \<or> (\<exists>kvs s d out. b = ObjBody kvs \<and> map_of kvs ''name'' = Some (JStr s)
          \<and> joi_done (map_of kvs ''done'') = Inr (JBool d)
          \<and> v = Some out \<and> out = AList.update ''done'' (JBool d) kvs
          \<and> 1 \<le> length s \<and> length s \<le> 120)"
proof (cases b)
  case NoBody
  with assms show ?thesis
    by (simp add: validateItem_def itemSchema_def joi_validate_def)
next
  case (ArrBody xs)
  with assms show ?thesis
    by (simp add: validateItem_def itemSchema_def joi_validate_def)
next
  case (ObjBody kvs)
  from assms ObjBody have n: "joi_name (map_of kvs ''name'') = None"
    by (auto simp: validateItem_def itemSchema_def joi_validate_def split: option.splits)
  then obtain s where s: "map_of kvs ''name'' = Some (JStr s)" "1 \<le> length s" "length s \<le> 120"
    by (auto simp: joi_name_ok)
  from assms ObjBody n obtain d0 where d0: "joi_done (map_of kvs ''done'') = Inr d0"
    by (auto simp: validateItem_def itemSchema_def joi_validate_def split: sum.splits)
  then obtain d where d: "d0 = JBool d" using joi_done_bool by blast
  from assms ObjBody n d0 d have "v = Some (AList.update ''done'' (JBool d) kvs)"
    by (auto simp: validateItem_def itemSchema_def joi_validate_def split: list.splits)
  with ObjBody s d0 d show ?thesis by simp
qed

lemma validateItem_fallback_shape:
  assumes "validateItem (itemSchema False) b = Inr v"
  shows "\<exists>kvs s. b = ObjBody kvs \<and> map_of kvs ''name'' = Some (JStr s) \<and> trim s \<noteq> []
          \<and> v = Some [(''name'', JStr (trim s)), (''done'', JBool (Boolean (map_of kvs ''done'')))]"
proof (cases b)
  case NoBody
  with assms show ?thesis by (simp add: validateItem_def itemSchema_def)
next
  case (ArrBody xs)
  with assms show ?thesis by (simp add: validateItem_def itemSchema_def)
next
  case (ObjBody kvs)
  with assms show ?thesis
    by (auto simp: validateItem_def itemSchema_def split: option.splits json.splits if_splits)
qed

subsection \<open>Decimal ids\<close>

text \<open>
  \<open>String\<close> of a clock reading is injective, so distinct readings give distinct ids.
\<close>

lemma String_nat_nonempty: "String_nat n \<noteq> []"
  by (subst String_nat.simps) simp

lemma digit_char_inj: "a < 10 \<Longrightarrow> b < 10 \<Longrightarrow> digit_char a = digit_char b \<Longrightarrow> a = b"
  by (simp add: digit_char_def char_of_eq_iff take_bit_nat_eq_self)

lemma String_nat_small: "n < 10 \<Longrightarrow> String_nat n = [digit_char n]"
  by (subst String_nat.simps) simp

lemma String_nat_large:
  "\<not> n < 10 \<Longrightarrow> String_nat n = String_nat (n div 10) @ [digit_char (n mod 10)]"
  by (subst String_nat.simps) simp

lemma String_nat_inj: "String_nat m = String_nat n \<Longrightarrow> m = n"
proof (induction m arbitrary: n rule: String_nat.induct)
  case (1 m)
  show ?case
  proof (cases "m < 10")
    case True
    note m = this
    show ?thesis
    proof (cases "n < 10")
      case True
      with m "1.prems" show ?thesis
        by (simp add: String_nat_small digit_char_inj)
    next
      case False
      with m "1.prems" String_nat_nonempty [of "n div 10"] show ?thesis
        by (simp add: String_nat_small String_nat_large)
    qed
  next
    case False
    note m = this
    show ?thesis
    proof (cases "n < 10")
      case True
      with m "1.prems" String_nat_nonempty [of "m div 10"] show ?thesis
        by (simp add: String_nat_small String_nat_large)
    next
      case False
      with m "1.prems" have e: "String_nat (m div 10) = String_nat (n div 10)"
        and d: "digit_char (m mod 10) = digit_char (n mod 10)"
        by (simp_all add: String_nat_large)
      from "1.IH" [OF m e] have q: "m div 10 = n div 10" .
      from d have r: "m mod 10 = n mod 10" by (simp add: digit_char_inj)
      from q r show ?thesis by (metis div_mult_mod_eq)
    qed
  qed
qed

lemma id_at_inj: "id_at m = id_at n \<longleftrightarrow> m = n"
  by (auto simp: id_at_def dest: String_nat_inj)

lemma id_at_seed: "id_at n = Some (JStr ''1'') \<longleftrightarrow> n = 1" "id_at n = Some (JStr ''2'') \<longleftrightarrow> n = 2"
proof -
  have "id_at 1 = Some (JStr ''1'')" "id_at 2 = Some (JStr ''2'')"
    by code_simp+
  then show "id_at n = Some (JStr ''1'') \<longleftrightarrow> n = 1" "id_at n = Some (JStr ''2'') \<longleftrightarrow> n = 2"
    by (metis id_at_inj)+
qed

subsection \<open>The ids of the store under one request\<close>

lemma post_items_accepted:
  assumes "validateItem (itemSchema joi) b = Inr v"
  shows "post_items joi b now s =
           (\<lparr> status = 201,
              payload = JObj [(''item'', JObj (spread [(''id'', JStr (String_nat now))] v))] \<rparr>,
            s\<lparr> items := items s @ [spread [(''id'', JStr (String_nat now))] v] \<rparr>)"
    and "map_of (spread [(''id'', JStr (String_nat now))] v) ''id'' = id_at now"
proof -
  show "post_items joi b now s =
           (\<lparr> status = 201,
              payload = JObj [(''item'', JObj (spread [(''id'', JStr (String_nat now))] v))] \<rparr>,
            s\<lparr> items := items s @ [spread [(''id'', JStr (String_nat now))] v] \<rparr>)"
    using assms by (simp add: post_items_def Let_def)
  show "map_of (spread [(''id'', JStr (String_nat now))] v) ''id'' = id_at now"
    using spread_validated_other [OF assms, of "''id''" "[(''id'', JStr (String_nat now))]"]
    by (simp add: id_at_def)
qed

lemma ids_post_items:
  "ids (snd (post_items joi b now s)) = (if accepts joi b then ids s @ [id_at now] else ids s)"
proof (cases "validateItem (itemSchema joi) b")
  case (Inl e)
  then show ?thesis by (simp add: post_items_def accepts_def)
next
  case (Inr v)
  with post_items_accepted(1) [OF Inr, of now s] post_items_accepted(2) [OF Inr, of now]
  show ?thesis
    by (simp add: accepts_def ids_def)
qed

lemma status_post_items:
  "status (fst (post_items joi b now s)) = (if accepts joi b then 201 else 400)"
proof (cases "validateItem (itemSchema joi) b")
  case (Inl e)
  then show ?thesis by (simp add: post_items_refused accepts_def)
next
  case (Inr v)
  with post_items_accepted(1) [OF Inr, of now s] show ?thesis
    by (simp add: accepts_def)
qed

lemma payload_errorHandler: "payload (errorHandler e) \<noteq> JObj [(''removed'', JBool True)]"
  by (simp add: errorHandler_def)

lemma payload_post_items: "payload (fst (post_items joi b now s)) \<noteq> JObj [(''removed'', JBool True)]"
  by (cases "validateItem (itemSchema joi) b")
     (simp_all add: post_items_def Let_def payload_errorHandler)

lemma put_items_replaces:
  assumes "validateItem (itemSchema joi) b = Inr v" and "findIndex (has_id pid) (items s) = Some i"
  shows "put_items joi pid b s =
           (\<lparr> status = 200, payload = JObj [(''item'', JObj (spread (items s ! i) v))] \<rparr>,
            s\<lparr> items := (items s)[i := spread (items s ! i) v] \<rparr>)"
  using assms by (simp add: put_items_def Let_def)

lemma ids_put_items: "ids (snd (put_items joi pid b s)) = ids s"
proof (cases "validateItem (itemSchema joi) b")
  case (Inl e)
  then show ?thesis by (simp add: put_items_def)
next
  case (Inr v)
  show ?thesis
  proof (cases "findIndex (has_id pid) (items s)")
    case None
    with Inr show ?thesis by (simp add: put_items_def)
  next
    case (Some i)
    have "map_of (spread (items s ! i) v) ''id'' = map_of (items s ! i) ''id''"
      using spread_validated_other [OF Inr, of "''id''"] by simp
    moreover from Some have "i < length (items s)" by (simp add: findIndex_Some)
    ultimately have "map (\<lambda>x. map_of x ''id'') ((items s)[i := spread (items s ! i) v]) =
        map (\<lambda>x. map_of x ''id'') (items s)"
      by (simp add: map_update list_update_same_conv)
    with put_items_replaces [OF Inr Some] show ?thesis by (simp add: ids_def)
  qed
qed

lemma status_put_items: "status (fst (put_items joi pid b s)) \<noteq> 201"
  by (auto simp: put_items_def Let_def errorHandler_400 validateItem_error_status
           split: sum.splits option.splits)

lemma payload_put_items: "payload (fst (put_items joi pid b s)) \<noteq> JObj [(''removed'', JBool True)]"
  by (auto simp: put_items_def Let_def payload_errorHandler split: sum.splits option.splits)

lemma ids_delete_items:
  "ids (snd (delete_items pid s)) = filter (\<lambda>i. i \<noteq> Some (JStr pid)) (ids s)"
  by (simp add: delete_items_store ids_def filter_map comp_def has_id_def)

lemma deleted_delete_items:
  "payload (fst (delete_items pid s)) = JObj [(''removed'', JBool True)]
     \<longleftrightarrow> Some (JStr pid) \<in> set (ids s)"
  by (force simp: delete_items_payload ids_def has_id_def)

lemma distinct_filter_length:
  "distinct xs \<Longrightarrow>
   length (filter (\<lambda>i. i \<noteq> a) xs) + (if a \<in> set xs then 1 else 0) = length xs"
proof (induction xs)
  case Nil
  then show ?case by simp
next
  case (Cons x xs)
  then show ?case by (cases "x = a") auto
qed

lemma status_get_me: "status (fst (get_me hs s)) \<noteq> 201"
  by (auto simp: get_me_def authStub_def errorHandler_def split: option.splits)

lemma payload_get_me: "payload (fst (get_me hs s)) \<noteq> JObj [(''removed'', JBool True)]"
  by (auto simp: get_me_def authStub_def errorHandler_def split: option.splits)

lemma snd_get_me: "snd (get_me hs s) = s"
  by (auto simp: get_me_def split: sum.splits)

subsection \<open>The ids of the store under a run\<close>

text \<open>
  The invariant behind the counts: as long as the clock readings of the successful
  appends are new, the ids of the store stay distinct, each request changes the length of
  the store by its append or its delete, and the ids stay a subsequence of the ids in
  the order of insertion.
\<close>

lemma handle_ids:
  "ids (snd (handle joi r s)) =
     (case r of
        PostItems b now \<Rightarrow> if accepts joi b then ids s @ [id_at now] else ids s
      | DeleteItems pid \<Rightarrow> filter (\<lambda>i. i \<noteq> Some (JStr pid)) (ids s)
      | _ \<Rightarrow> ids s)"
  by (cases r)
     (simp_all add: snd_get_me get_items_def ids_post_items ids_put_items ids_delete_items
        not_found_def)

lemma handle_appended:
  "appended [fst (handle joi r s)] = length (append_times joi [r])"
  by (cases r)
     (simp_all add: appended_def status_get_me get_items_def status_post_items status_put_items
        delete_items_status not_found_def)

lemma handle_deleted:
  "deleted [fst (handle joi r s)] =
     (case r of DeleteItems pid \<Rightarrow> if Some (JStr pid) \<in> set (ids s) then 1 else 0 | _ \<Rightarrow> 0)"
  by (cases r)
     (simp_all add: deleted_def payload_get_me get_items_def payload_post_items payload_put_items
        deleted_delete_items not_found_def)

lemma handle_count:
  assumes "distinct (ids s)"
  shows "length (ids (snd (handle joi r s))) + deleted [fst (handle joi r s)] =
         length (ids s) + appended [fst (handle joi r s)]"
proof (cases r)
  case (DeleteItems pid)
  with distinct_filter_length [OF assms, of "Some (JStr pid)"]
    handle_ids [of joi r s] handle_deleted [of joi r s] handle_appended [of joi r s]
  show ?thesis by simp
qed (use handle_ids [of joi r s] handle_deleted [of joi r s] handle_appended [of joi r s]
     in simp_all)

lemma appended_Cons: "appended (r # rs) = appended [r] + appended rs"
  by (simp add: appended_def)

lemma deleted_Cons: "deleted (r # rs) = deleted [r] + deleted rs"
  by (simp add: deleted_def)

lemma append_times_Cons: "append_times joi (r # rs) = append_times joi [r] @ append_times joi rs"
  by (cases r) simp_all

lemma handle_distinct:
  assumes "distinct (ids s)" and "\<forall>t\<in>set (append_times joi [r]). id_at t \<notin> set (ids s)"
  shows "distinct (ids (snd (handle joi r s)))"
  using assms handle_ids [of joi r s] by (cases r) (simp_all split: if_splits)

lemma handle_ids_subset:
  "set (ids (snd (handle joi r s))) \<subseteq> set (ids s) \<union> id_at ` set (append_times joi [r])"
  using handle_ids [of joi r s] by (cases r) (auto split: if_splits)

lemma handle_subseq:
  "subseq (ids (snd (handle joi r s)) @ zs) (ids s @ map id_at (append_times joi [r]) @ zs)"
  using handle_ids [of joi r s] by (cases r) (simp_all split: if_splits)

lemma run_invariant:
  assumes "distinct (ids s)" and "distinct (append_times joi rs)"
    and "\<forall>t\<in>set (append_times joi rs). id_at t \<notin> set (ids s)"
  shows "distinct (ids (snd (run joi rs s)))
     \<and> subseq (ids (snd (run joi rs s))) (ids s @ map id_at (append_times joi rs))
     \<and> length (ids (snd (run joi rs s))) + deleted (fst (run joi rs s)) =
         length (ids s) + appended (fst (run joi rs s))"
  using assms
proof (induction rs arbitrary: s)
  case Nil
  then show ?case by (simp add: appended_def deleted_def)
next
  case (Cons r rs)
  let ?s1 = "snd (handle joi r s)"
  let ?r1 = "fst (handle joi r s)"
  from Cons.prems(2) have d: "distinct (append_times joi [r])" "distinct (append_times joi rs)"
    and dj: "set (append_times joi [r]) \<inter> set (append_times joi rs) = {}"
    by (simp_all add: append_times_Cons [of joi r rs])
  from Cons.prems(3) have f1: "\<forall>t\<in>set (append_times joi [r]). id_at t \<notin> set (ids s)"
    and f2: "\<forall>t\<in>set (append_times joi rs). id_at t \<notin> set (ids s)"
    by (simp_all add: append_times_Cons [of joi r rs])
  have d1: "distinct (ids ?s1)"
    using Cons.prems(1) f1 by (rule handle_distinct)
  have fresh: "\<forall>t\<in>set (append_times joi rs). id_at t \<notin> set (ids ?s1)"
  proof
    fix t assume t: "t \<in> set (append_times joi rs)"
    show "id_at t \<notin> set (ids ?s1)"
    proof
      assume "id_at t \<in> set (ids ?s1)"
      with handle_ids_subset [of joi r s]
      have "id_at t \<in> set (ids s) \<or> id_at t \<in> id_at ` set (append_times joi [r])" by blast
      then show False
      proof
        assume "id_at t \<in> set (ids s)"
        with f2 t show False by blast
      next
        assume "id_at t \<in> id_at ` set (append_times joi [r])"
        then have "t \<in> set (append_times joi [r])" by (auto simp: id_at_inj)
        with dj t show False by blast
      qed
    qed
  qed
  note IH = Cons.IH [OF d1 d(2) fresh]
  have s: "snd (run joi (r # rs) s) = snd (run joi rs ?s1)" by (rule run_Cons_snd)
  have f: "fst (run joi (r # rs) s) = ?r1 # fst (run joi rs ?s1)" by (rule run_Cons_fst)
  have sub: "subseq (ids (snd (run joi rs ?s1))) (ids s @ map id_at (append_times joi (r # rs)))"
  proof -
    have a: "subseq (ids (snd (run joi rs ?s1))) (ids ?s1 @ map id_at (append_times joi rs))"
      using IH by blast
    have b: "subseq (ids ?s1 @ map id_at (append_times joi rs))
               (ids s @ map id_at (append_times joi [r]) @ map id_at (append_times joi rs))"
      by (rule handle_subseq)
    from a b have "subseq (ids (snd (run joi rs ?s1)))
               (ids s @ map id_at (append_times joi [r]) @ map id_at (append_times joi rs))"
      by (rule subseq_order.trans)
    then show ?thesis by (simp add: append_times_Cons [of joi r rs])
  qed
  have cnt: "length (ids (snd (run joi rs ?s1))) + (deleted [?r1] + deleted (fst (run joi rs ?s1))) =
      length (ids s) + (appended [?r1] + appended (fst (run joi rs ?s1)))"
    using IH handle_count [OF Cons.prems(1), of joi r] by linarith
  have ap: "appended (fst (run joi (r # rs) s)) = appended [?r1] + appended (fst (run joi rs ?s1))"
    unfolding f by (rule appended_Cons)
  have de: "deleted (fst (run joi (r # rs) s)) = deleted [?r1] + deleted (fst (run joi rs ?s1))"
    unfolding f by (rule deleted_Cons)
  show ?case
    unfolding s ap de using IH sub cnt by blast
qed

subsection \<open>Two appends at the same instant\<close>

lemma digit_chars:
  "digit_char 0 = CHR ''0''" "digit_char 1 = CHR ''1''" "digit_char 2 = CHR ''2''"
  "digit_char 3 = CHR ''3''" "digit_char 4 = CHR ''4''" "digit_char 5 = CHR ''5''"
  "digit_char 6 = CHR ''6''" "digit_char 7 = CHR ''7''" "digit_char 8 = CHR ''8''"
  "digit_char 9 = CHR ''9''" "digit_char (Suc 0) = CHR ''1''"
  by code_simp+

lemma String_nat_example: "String_nat 1730000000000 = ''1730000000000''"
  by (simp add: String_nat.simps digit_chars)

lemma post_items_fallback_plain:
  assumes "trim n = n" and "n \<noteq> []"
  shows "post_items False (ObjBody [(''name'', JStr n)]) now s =
     (\<lparr> status = 201, payload = JObj [(''item'',
          JObj [(''id'', JStr (String_nat now)), (''name'', JStr n), (''done'', JBool False)])] \<rparr>,
      s\<lparr> items := items s @
          [[(''id'', JStr (String_nat now)), (''name'', JStr n), (''done'', JBool False)]] \<rparr>)"
  using assms
  by (simp add: post_items_def validateItem_def itemSchema_def Boolean_def spread_def Let_def)

lemma trim_letter: "trim ''A'' = ''A''" "trim ''B'' = ''B''" "trim ''X'' = ''X''"
  by (simp_all add: trim_def is_space_def)

lemma same_instant_run:
  "run False
       [PostItems (ObjBody [(''name'', JStr ''A'')]) 1730000000000,
        PostItems (ObjBody [(''name'', JStr ''B'')]) 1730000000000] initial_store =
   ([\<lparr> status = 201, payload = JObj [(''item'',
          JObj [(''id'', JStr ''1730000000000''), (''name'', JStr ''A''), (''done'', JBool False)])] \<rparr>,
     \<lparr> status = 201, payload = JObj [(''item'',
          JObj [(''id'', JStr ''1730000000000''), (''name'', JStr ''B''), (''done'', JBool False)])] \<rparr>],
    \<lparr> items =
     [ [(''id'', JStr ''1''), (''name'', JStr ''First''), (''done'', JBool False)],
       [(''id'', JStr ''2''), (''name'', JStr ''Second''), (''done'', JBool True)],
       [(''id'', JStr ''1730000000000''), (''name'', JStr ''A''), (''done'', JBool False)],
       [(''id'', JStr ''1730000000000''), (''name'', JStr ''B''), (''done'', JBool False)] ] \<rparr>)"
  by (simp add: post_items_fallback_plain trim_letter String_nat_example initial_store_def)

lemma same_instant_items:
  "items same_instant_store =
     [ [(''id'', JStr ''1''), (''name'', JStr ''First''), (''done'', JBool False)],
       [(''id'', JStr ''2''), (''name'', JStr ''Second''), (''done'', JBool True)],
       [(''id'', JStr ''1730000000000''), (''name'', JStr ''A''), (''done'', JBool False)],
       [(''id'', JStr ''1730000000000''), (''name'', JStr ''B''), (''done'', JBool False)] ]"
  unfolding same_instant_store_def same_instant_run by simp

lemma append_times_append:
  "append_times joi (rs @ rs') = append_times joi rs @ append_times joi rs'"
proof (induction rs)
  case Nil
  then show ?case by simp
next
  case (Cons r rs)
  then show ?case
    using append_times_Cons [of joi r "rs @ rs'"] append_times_Cons [of joi r rs] by simp
qed

lemma run_appended: "appended (fst (run joi rs s)) = length (append_times joi rs)"
proof (induction rs arbitrary: s)
  case Nil
  then show ?case by (simp add: appended_def)
next
  case (Cons r rs)
  have "appended (fst (run joi (r # rs) s)) =
      appended [fst (handle joi r s)] + appended (fst (run joi rs (snd (handle joi r s))))"
    unfolding run_Cons_fst by (rule appended_Cons)
  with Cons [of "snd (handle joi r s)"] handle_appended [of joi r s]
    append_times_Cons [of joi r rs]
  show ?case by simp
qed

lemma ids_initial_store: "ids initial_store = [Some (JStr ''1''), Some (JStr ''2'')]"
  by (simp add: ids_def initial_store_def)

lemma fresh_initial:
  assumes "1 \<notin> set ts" and "2 \<notin> set ts"
  shows "\<forall>t\<in>set ts. id_at t \<notin> set (ids initial_store)"
  using assms by (auto simp: ids_initial_store id_at_seed)

lemma validated_has_fields:
  assumes "validateItem (itemSchema joi) b = Inr (Some out)"
  shows "\<exists>n d. map_of out ''name'' = Some (JStr n) \<and> map_of out ''done'' = Some (JBool d)"
proof (cases joi)
  case True
  with assms validateItem_joi_shape [of b "Some out"] show ?thesis
    by (auto simp: update_conv')
next
  case False
  with assms validateItem_fallback_shape [of b "Some out"] show ?thesis
    by auto
qed

lemma subseq_set: "subseq xs ys \<Longrightarrow> set xs \<subseteq> set ys"
  by (auto dest: list_emb_set)

lemma put_same_instant:
  "put_items False ''1730000000000'' (ObjBody [(''name'', JStr ''X'')]) same_instant_store =
     (\<lparr> status = 200, payload = JObj [(''item'',
          JObj [(''id'', JStr ''1730000000000''), (''name'', JStr ''X''), (''done'', JBool False)])] \<rparr>,
      \<lparr> items =
       [ [(''id'', JStr ''1''), (''name'', JStr ''First''), (''done'', JBool False)],
         [(''id'', JStr ''2''), (''name'', JStr ''Second''), (''done'', JBool True)],
         [(''id'', JStr ''1730000000000''), (''name'', JStr ''X''), (''done'', JBool False)],
         [(''id'', JStr ''1730000000000''), (''name'', JStr ''B''), (''done'', JBool False)] ] \<rparr>)"
proof -
  have v: "validateItem (itemSchema False) (ObjBody [(''name'', JStr ''X'')]) =
      Inr (Some [(''name'', JStr ''X''), (''done'', JBool False)])"
    by (simp add: validateItem_def itemSchema_def trim_letter Boolean_def)
  have i: "findIndex (has_id ''1730000000000'') (items same_instant_store) = Some 2"
    by (simp add: same_instant_items has_id_def)
  have s: "same_instant_store = \<lparr> items = items same_instant_store \<rparr>" by simp
  show ?thesis
    unfolding put_items_replaces [OF v i]
    by (subst (2) s) (simp add: same_instant_items spread_def)
qed

section \<open>The claims\<close>

subsection \<open>C1: unique ids\<close>

text \<open>
  C1 as stated fails for two appends at the same clock instant: both \<open>POST /items\<close>
  requests are answered with 201, and the two created items carry the same id, so the
  ids of the store are no longer unique.
\<close>

theorem unique_ids_counterexample:
  "map status (fst (run False
       [PostItems (ObjBody [(''name'', JStr ''A'')]) 1730000000000,
        PostItems (ObjBody [(''name'', JStr ''B'')]) 1730000000000] initial_store)) = [201, 201]
   \<and> ids same_instant_store =
       [Some (JStr ''1''), Some (JStr ''2''),
        Some (JStr ''1730000000000''), Some (JStr ''1730000000000'')]
   \<and> \<not> distinct (ids same_instant_store)"
  unfolding same_instant_run by (simp add: ids_def same_instant_items)

text \<open>
  C1, amended. Take any sequence of requests on the fresh server in which the clock
  readings of the successful appends are pairwise distinct and none of them is 1 or 2 (the
  readings whose decimal form is the id of a seed item). Then the ids of the items in
  the store are unique after the sequence, and every \<open>POST /items\<close> of the sequence
  whose body passes validation is answered with 201 and an item that is appended to the
  store and whose id is the decimal form of its clock reading, an id that no seed item,
  no item created earlier in the sequence and no item of the store has.
\<close>

theorem unique_ids:
  assumes "distinct (append_times joi rs)"
    and "1 \<notin> set (append_times joi rs)" and "2 \<notin> set (append_times joi rs)"
  shows "distinct (ids (snd (run joi rs initial_store)))
     \<and> (\<forall>rs1 b now rs2. rs = rs1 @ PostItems b now # rs2 \<and> accepts joi b \<longrightarrow>
          status (fst (post_items joi b now (snd (run joi rs1 initial_store)))) = 201
          \<and> (\<exists>item. payload (fst (post_items joi b now (snd (run joi rs1 initial_store)))) =
                  JObj [(''item'', JObj item)]
                \<and> items (snd (post_items joi b now (snd (run joi rs1 initial_store)))) =
                  items (snd (run joi rs1 initial_store)) @ [item]
                \<and> map_of item ''id'' = id_at now)
          \<and> id_at now \<notin> set (ids initial_store)
          \<and> id_at now \<notin> id_at ` set (append_times joi rs1)
          \<and> id_at now \<notin> set (ids (snd (run joi rs1 initial_store))))"
proof (intro conjI allI impI)
  have d0: "distinct (ids initial_store)" by (simp add: ids_initial_store)
  from run_invariant [OF d0 assms(1) fresh_initial [OF assms(2,3)]]
  show "distinct (ids (snd (run joi rs initial_store)))" by blast
next
  fix rs1 b now rs2
  assume h: "rs = rs1 @ PostItems b now # rs2 \<and> accepts joi b"
  then have ts: "append_times joi rs = append_times joi rs1 @ now # append_times joi rs2"
    using append_times_append [of joi rs1 "PostItems b now # rs2"] by simp
  from h obtain v where v: "validateItem (itemSchema joi) b = Inr v"
    by (auto simp: accepts_def split: sum.splits)
  let ?s = "snd (run joi rs1 initial_store)"
  let ?item = "spread [(''id'', JStr (String_nat now))] v"
  show "status (fst (post_items joi b now ?s)) = 201"
    using h by (simp add: status_post_items)
  show "\<exists>item. payload (fst (post_items joi b now ?s)) = JObj [(''item'', JObj item)]
          \<and> items (snd (post_items joi b now ?s)) = items ?s @ [item]
          \<and> map_of item ''id'' = id_at now"
    using post_items_accepted(1) [OF v, of now ?s] post_items_accepted(2) [OF v, of now]
    by simp
  from assms(2,3) ts have n12: "now \<noteq> 1" "now \<noteq> 2" by auto
  then show s0: "id_at now \<notin> set (ids initial_store)"
    by (simp add: ids_initial_store id_at_seed)
  from assms(1) ts have n1: "now \<notin> set (append_times joi rs1)" by simp
  then show s1: "id_at now \<notin> id_at ` set (append_times joi rs1)"
    by (auto simp: id_at_inj)
  have d0: "distinct (ids initial_store)" by (simp add: ids_initial_store)
  have d1: "distinct (append_times joi rs1)" using assms(1) ts by simp
  have f1: "\<forall>t\<in>set (append_times joi rs1). id_at t \<notin> set (ids initial_store)"
    using assms(2,3) ts by (intro fresh_initial) simp_all
  from run_invariant [OF d0 d1 f1]
  have "subseq (ids ?s) (ids initial_store @ map id_at (append_times joi rs1))" by blast
  then have "set (ids ?s) \<subseteq> set (ids initial_store @ map id_at (append_times joi rs1))"
    by (rule subseq_set)
  with s0 s1 show "id_at now \<notin> set (ids ?s)" by auto
qed


text \<open>
  An instance of the amended C1: an append, a delete of a seed item and a second append
  one millisecond later, on the fallback path.
\<close>

theorem unique_ids_witness:
  "append_times False
     [PostItems (ObjBody [(''name'', JStr ''Third'')]) 1730000000000,
      DeleteItems ''1'',
      PostItems (ObjBody [(''name'', JStr ''Fourth'')]) 1730000000001] =
     [1730000000000, 1730000000001]
   \<and> distinct (ids (snd (run False
     [PostItems (ObjBody [(''name'', JStr ''Third'')]) 1730000000000,
      DeleteItems ''1'',
      PostItems (ObjBody [(''name'', JStr ''Fourth'')]) 1730000000001] initial_store)))"
proof -
  let ?rs = "[PostItems (ObjBody [(''name'', JStr ''Third'')]) 1730000000000,
      DeleteItems ''1'',
      PostItems (ObjBody [(''name'', JStr ''Fourth'')]) 1730000000001]"
  have t: "append_times False ?rs = [1730000000000, 1730000000001]"
    by (simp add: accepts_def validateItem_def itemSchema_def trim_def is_space_def)
  have "distinct (ids (snd (run False ?rs initial_store)))"
    using unique_ids [of False ?rs] unfolding t by simp
  with t show ?thesis by blast
qed

subsection \<open>C2: replacing under an unknown id\<close>

text \<open>
  C2 as stated promises 404 for every body. It fails for a body that validation refuses:
  on the fresh server no item has the id \<open>'9'\<close>, and \<open>PUT /items/9\<close> with the empty
  object is answered with 400.
\<close>

theorem put_unknown_counterexample:
  "findIndex (has_id ''9'') (items initial_store) = None
   \<and> status (fst (put_items False ''9'' (ObjBody []) initial_store)) = 400
   \<and> status (fst (put_items True ''9'' (ObjBody []) initial_store)) = 400"
  by (simp add: initial_store_def has_id_def put_items_def validateItem_def itemSchema_def
        joi_validate_def errorHandler_def)

text \<open>
  C2, amended. For every id that no item of the store has, \<open>PUT /items/:id\<close> leaves the
  store as it is; it answers 404 for every body that passes validation and 400 for every
  body that fails it.
\<close>

theorem put_unknown:
  "\<forall>x\<in>set (items s). \<not> has_id pid x \<Longrightarrow>
   snd (put_items joi pid b s) = s
   \<and> status (fst (put_items joi pid b s)) = (if accepts joi b then 404 else 400)"
  using put_items_refused [of joi b pid s] put_items_unknown [of joi b s pid]
  by (cases "accepts joi b") simp_all

text \<open>An instance of the amended C2: a valid body under the unknown id \<open>'9'\<close>.\<close>

theorem put_unknown_witness:
  "findIndex (has_id ''9'') (items initial_store) = None
   \<and> accepts True (ObjBody [(''name'', JStr ''New'')])
   \<and> snd (put_items True ''9'' (ObjBody [(''name'', JStr ''New'')]) initial_store) = initial_store
   \<and> status (fst (put_items True ''9'' (ObjBody [(''name'', JStr ''New'')]) initial_store)) = 404"
proof -
  have h: "\<forall>x\<in>set (items initial_store). \<not> has_id ''9'' x"
    by (simp add: initial_store_def has_id_def)
  have a: "accepts True (ObjBody [(''name'', JStr ''New'')])"
    by (simp add: accepts_def validateItem_def itemSchema_def joi_validate_def)
  from put_unknown [OF h, of True "ObjBody [(''name'', JStr ''New'')]"] h a
  show ?thesis by (simp add: findIndex_None)
qed

subsection \<open>C3: a blank name\<close>

text \<open>
  C3 says that \<open>POST /items\<close> answers 400 and leaves the store as it is for every body
  whose \<open>name\<close> is empty or consists of white space only, on both validation paths. The
  fallback path does so, and the Joi path does so for the empty \<open>name\<close>. But the Joi path
  accepts every \<open>name\<close> of 1 to 120 characters, blank or not: for the body \<open>{name: ' '}\<close>
  the answer is 201 and the item is stored under the name \<open>' '\<close>.
\<close>

theorem post_blank_name:
  "(\<forall>kvs s. map_of kvs ''name'' = Some (JStr s) \<and> (\<forall>c\<in>set s. is_space c) \<longrightarrow>
      status (fst (post_items False (ObjBody kvs) now st)) = 400
      \<and> snd (post_items False (ObjBody kvs) now st) = st)
   \<and> (\<forall>kvs. map_of kvs ''name'' = Some (JStr '''') \<longrightarrow>
      status (fst (post_items True (ObjBody kvs) now st)) = 400
      \<and> snd (post_items True (ObjBody kvs) now st) = st)
   \<and> (\<forall>s. s \<noteq> [] \<and> length s \<le> 120 \<longrightarrow>
      status (fst (post_items True (ObjBody [(''name'', JStr s)]) now st)) = 201)
   \<and> post_items True (ObjBody [(''name'', JStr '' '')]) now st =
       (\<lparr> status = 201, payload = JObj [(''item'',
            JObj [(''id'', JStr (String_nat now)), (''name'', JStr '' ''), (''done'', JBool False)])] \<rparr>,
        st\<lparr> items := items st @
            [[(''id'', JStr (String_nat now)), (''name'', JStr '' ''), (''done'', JBool False)]] \<rparr>)"
proof (intro conjI allI impI)
  fix kvs s
  assume h: "map_of kvs ''name'' = Some (JStr s) \<and> (\<forall>c\<in>set s. is_space c)"
  then have v: "validateItem (itemSchema False) (ObjBody kvs) = Inl (Error ''name is required'' (Some 400))"
    by (simp add: validateItem_fallback_blank)
  from post_items_refused [OF v, of now st]
  show "status (fst (post_items False (ObjBody kvs) now st)) = 400"
    and "snd (post_items False (ObjBody kvs) now st) = st" by simp_all
next
  fix kvs
  assume "map_of kvs ''name'' = Some (JStr '''')"
  then obtain m where v: "validateItem (itemSchema True) (ObjBody kvs) = Inl (Error m (Some 400))"
    using validateItem_joi_empty by blast
  from post_items_refused [OF v, of now st]
  show "status (fst (post_items True (ObjBody kvs) now st)) = 400"
    and "snd (post_items True (ObjBody kvs) now st) = st" by simp_all
next
  fix s :: string
  assume "s \<noteq> [] \<and> length s \<le> 120"
  then show "status (fst (post_items True (ObjBody [(''name'', JStr s)]) now st)) = 201"
    by (simp add: post_items_def validateItem_def itemSchema_def joi_validate_def Let_def)
next
  show "post_items True (ObjBody [(''name'', JStr '' '')]) now st =
       (\<lparr> status = 201, payload = JObj [(''item'',
            JObj [(''id'', JStr (String_nat now)), (''name'', JStr '' ''), (''done'', JBool False)])] \<rparr>,
        st\<lparr> items := items st @
            [[(''id'', JStr (String_nat now)), (''name'', JStr '' ''), (''done'', JBool False)]] \<rparr>)"
    by (simp add: post_items_def validateItem_def itemSchema_def joi_validate_def spread_def Let_def)
qed

text \<open>
  An instance of C3 on the fresh server: the body \<open>{name: ' '}\<close> is refused on the
  fallback path and stored on the Joi path.
\<close>

theorem post_blank_name_witness:
  "map_of [(''name'', JStr '' '')] ''name'' = Some (JStr '' '')
   \<and> list_all is_space '' ''
   \<and> status (fst (post_items False (ObjBody [(''name'', JStr '' '')]) 1730000000000 initial_store)) = 400
   \<and> status (fst (post_items True (ObjBody [(''name'', JStr '' '')]) 1730000000000 initial_store)) = 201
   \<and> length (items (snd (post_items True (ObjBody [(''name'', JStr '' '')]) 1730000000000 initial_store))) = 3"
proof -
  have sp: "\<forall>c\<in>set '' ''. is_space c" by (simp add: is_space_def)
  from post_blank_name [of 1730000000000 initial_store] sp
  have "status (fst (post_items False (ObjBody [(''name'', JStr '' '')]) 1730000000000 initial_store)) = 400"
    by (metis map_of_Cons_code(2))
  moreover from post_blank_name [of 1730000000000 initial_store]
  have "post_items True (ObjBody [(''name'', JStr '' '')]) 1730000000000 initial_store =
       (\<lparr> status = 201, payload = JObj [(''item'',
            JObj [(''id'', JStr (String_nat 1730000000000)), (''name'', JStr '' ''), (''done'', JBool False)])] \<rparr>,
        initial_store\<lparr> items := items initial_store @
            [[(''id'', JStr (String_nat 1730000000000)), (''name'', JStr '' ''), (''done'', JBool False)]] \<rparr>)"
    by blast
  ultimately show ?thesis using sp by (simp add: initial_store_def is_space_def)
qed

subsection \<open>C4: what validation returns\<close>




subsection \<open>C5: deleting twice\<close>

text \<open>
  C5. \<open>DELETE /items/:id\<close> always answers 200, never an error status; it removes every
  item whose id matches and reports in \<open>removed\<close> whether there was one. For an id that
  occurs exactly once in the store, two consecutive requests answer \<open>{removed:true}\<close> and
  then \<open>{removed:false}\<close>.
\<close>

theorem delete_twice:
  "status (fst (delete_items pid s)) = 200
   \<and> items (snd (delete_items pid s)) = filter (\<lambda>x. \<not> has_id pid x) (items s)
   \<and> payload (fst (delete_items pid s)) =
       JObj [(''removed'', JBool (\<exists>x\<in>set (items s). has_id pid x))]
   \<and> (length (filter (has_id pid) (items s)) = 1 \<longrightarrow>
       run joi [DeleteItems pid, DeleteItems pid] s =
         ([\<lparr> status = 200, payload = JObj [(''removed'', JBool True)] \<rparr>,
           \<lparr> status = 200, payload = JObj [(''removed'', JBool False)] \<rparr>],
          s\<lparr> items := filter (\<lambda>x. \<not> has_id pid x) (items s) \<rparr>))"
proof -
  let ?s1 = "snd (delete_items pid s)"
  have gone: "\<not> (\<exists>x\<in>set (items ?s1). has_id pid x)"
    by (simp add: delete_items_store)
  have again: "snd (delete_items pid ?s1) = ?s1"
    by (simp add: delete_items_store)
  have twice: "run joi [DeleteItems pid, DeleteItems pid] s =
      ([fst (delete_items pid s), fst (delete_items pid ?s1)], snd (delete_items pid ?s1))"
    by (simp add: split_beta)
  have once: "length (filter (has_id pid) (items s)) = 1 \<Longrightarrow> \<exists>x\<in>set (items s). has_id pid x"
  proof -
    assume "length (filter (has_id pid) (items s)) = 1"
    then have "filter (has_id pid) (items s) \<noteq> []" by auto
    then show ?thesis by (simp add: filter_empty_conv)
  qed
  have r1: "length (filter (has_id pid) (items s)) = 1 \<Longrightarrow>
      fst (delete_items pid s) = \<lparr> status = 200, payload = JObj [(''removed'', JBool True)] \<rparr>"
    using once delete_items_payload [of pid s] delete_items_status [of pid s]
    by (cases "fst (delete_items pid s)") simp
  have r2: "fst (delete_items pid ?s1) = \<lparr> status = 200, payload = JObj [(''removed'', JBool False)] \<rparr>"
    using gone delete_items_payload [of pid ?s1] delete_items_status [of pid ?s1]
    by (cases "fst (delete_items pid ?s1)") simp
  show ?thesis
    using r1 r2 twice again
    by (simp add: delete_items_status delete_items_payload delete_items_store)
qed

text \<open>An instance of C5: deleting the seed item \<open>'1'\<close> twice on the fresh server.\<close>

theorem delete_twice_witness:
  "length (filter (has_id ''1'') (items initial_store)) = 1
   \<and> run True [DeleteItems ''1'', DeleteItems ''1''] initial_store =
         ([\<lparr> status = 200, payload = JObj [(''removed'', JBool True)] \<rparr>,
           \<lparr> status = 200, payload = JObj [(''removed'', JBool False)] \<rparr>],
          \<lparr> items = [ [(''id'', JStr ''2''), (''name'', JStr ''Second''), (''done'', JBool True)] ] \<rparr>)"
proof -
  have h: "length (filter (has_id ''1'') (items initial_store)) = 1"
    by (simp add: initial_store_def has_id_def)
  have f: "filter (\<lambda>x. \<not> has_id ''1'' x) (items initial_store) =
      [ [(''id'', JStr ''2''), (''name'', JStr ''Second''), (''done'', JBool True)] ]"
    by (simp add: initial_store_def has_id_def)
  from delete_twice [of "''1''" initial_store True] h f show ?thesis
    by (simp add: initial_store_def)
qed

subsection \<open>C6: the number and the order of the items\<close>

text \<open>
  C6 as stated fails in two ways. The fresh server already answers \<open>GET /items\<close> with
  the two seed items, after no append and no delete. And a successful delete can remove
  more than one item: after two appends at the same clock instant and one successful
  delete of their common id, the store is back at the two seed items.
\<close>

theorem items_count_counterexample:
  "appended (fst (run False [] initial_store)) = 0
   \<and> deleted (fst (run False [] initial_store)) = 0
   \<and> length (items (snd (run False [] initial_store))) = 2
   \<and> appended (fst (run False
       [PostItems (ObjBody [(''name'', JStr ''A'')]) 1730000000000,
        PostItems (ObjBody [(''name'', JStr ''B'')]) 1730000000000,
        DeleteItems ''1730000000000''] initial_store)) = 2
   \<and> deleted (fst (run False
       [PostItems (ObjBody [(''name'', JStr ''A'')]) 1730000000000,
        PostItems (ObjBody [(''name'', JStr ''B'')]) 1730000000000,
        DeleteItems ''1730000000000''] initial_store)) = 1
   \<and> length (items (snd (run False
       [PostItems (ObjBody [(''name'', JStr ''A'')]) 1730000000000,
        PostItems (ObjBody [(''name'', JStr ''B'')]) 1730000000000,
        DeleteItems ''1730000000000''] initial_store))) = 2"
proof -
  have r: "run False
       [PostItems (ObjBody [(''name'', JStr ''A'')]) 1730000000000,
        PostItems (ObjBody [(''name'', JStr ''B'')]) 1730000000000,
        DeleteItems ''1730000000000''] initial_store =
     ([\<lparr> status = 201, payload = JObj [(''item'',
          JObj [(''id'', JStr ''1730000000000''), (''name'', JStr ''A''), (''done'', JBool False)])] \<rparr>,
       \<lparr> status = 201, payload = JObj [(''item'',
          JObj [(''id'', JStr ''1730000000000''), (''name'', JStr ''B''), (''done'', JBool False)])] \<rparr>,
       \<lparr> status = 200, payload = JObj [(''removed'', JBool True)] \<rparr>],
      \<lparr> items =
         [ [(''id'', JStr ''1''), (''name'', JStr ''First''), (''done'', JBool False)],
           [(''id'', JStr ''2''), (''name'', JStr ''Second''), (''done'', JBool True)] ] \<rparr>)"
    by (simp add: post_items_fallback_plain trim_letter String_nat_example initial_store_def
          delete_items_def Let_def has_id_def)
  show ?thesis
    unfolding r by (simp add: appended_def deleted_def initial_store_def)
qed

text \<open>
  C6, amended. Take any sequence of requests on the fresh server, which holds the two
  seed items, in which the clock readings of the successful appends are pairwise distinct
  and none of them is 1 or 2. With N the number of its successful appends (the answers
  with status 201, one for each body that passed validation) and M the number of its
  successful deletes (the answers \<open>{removed: true}\<close>), \<open>GET /items\<close> after the sequence
  returns exactly 2 + N - M items, and the ids of these items appear in the order in
  which the items were inserted: the seed items first, then the created items in the
  order of their creation.
\<close>

theorem items_count_order:
  assumes "distinct (append_times joi rs)"
    and "1 \<notin> set (append_times joi rs)" and "2 \<notin> set (append_times joi rs)"
  shows "fst (get_items (snd (run joi rs initial_store))) =
       \<lparr> status = 200,
         payload = JObj [(''data'', JArr (map JObj (items (snd (run joi rs initial_store)))))] \<rparr>
     \<and> appended (fst (run joi rs initial_store)) = length (append_times joi rs)
     \<and> int (length (items (snd (run joi rs initial_store)))) =
         2 + int (appended (fst (run joi rs initial_store)))
           - int (deleted (fst (run joi rs initial_store)))
     \<and> subseq (ids (snd (run joi rs initial_store)))
         ([Some (JStr ''1''), Some (JStr ''2'')] @ map id_at (append_times joi rs))"
proof -
  have d0: "distinct (ids initial_store)" by (simp add: ids_initial_store)
  note inv = run_invariant [OF d0 assms(1) fresh_initial [OF assms(2,3)]]
  have l: "length (ids (snd (run joi rs initial_store))) =
      length (items (snd (run joi rs initial_store)))" by (simp add: ids_def)
  from inv have "length (items (snd (run joi rs initial_store)))
        + deleted (fst (run joi rs initial_store)) =
      2 + appended (fst (run joi rs initial_store))"
    unfolding l by (simp add: ids_initial_store)
  then have c: "int (length (items (snd (run joi rs initial_store)))) =
         2 + int (appended (fst (run joi rs initial_store)))
           - int (deleted (fst (run joi rs initial_store)))" by linarith
  from inv have o: "subseq (ids (snd (run joi rs initial_store)))
         ([Some (JStr ''1''), Some (JStr ''2'')] @ map id_at (append_times joi rs))"
    by (simp add: ids_initial_store)
  have g: "fst (get_items (snd (run joi rs initial_store))) =
       \<lparr> status = 200,
         payload = JObj [(''data'', JArr (map JObj (items (snd (run joi rs initial_store)))))] \<rparr>"
    by (simp add: get_items_def)
  from g run_appended [of joi rs initial_store] c o show ?thesis by blast
qed

text \<open>
  An instance of the amended C6: two appends one millisecond apart and a delete of the
  seed item \<open>'1'\<close> leave 2 + 2 - 1 = 3 items.
\<close>

theorem items_count_order_witness:
  "append_times False
     [PostItems (ObjBody [(''name'', JStr ''Third'')]) 1730000000000,
      DeleteItems ''1'',
      PostItems (ObjBody [(''name'', JStr ''Fourth'')]) 1730000000001] =
     [1730000000000, 1730000000001]
   \<and> appended (fst (run False
     [PostItems (ObjBody [(''name'', JStr ''Third'')]) 1730000000000,
      DeleteItems ''1'',
      PostItems (ObjBody [(''name'', JStr ''Fourth'')]) 1730000000001] initial_store)) = 2
   \<and> deleted (fst (run False
     [PostItems (ObjBody [(''name'', JStr ''Third'')]) 1730000000000,
      DeleteItems ''1'',
      PostItems (ObjBody [(''name'', JStr ''Fourth'')]) 1730000000001] initial_store)) = 1
   \<and> length (items (snd (run False
     [PostItems (ObjBody [(''name'', JStr ''Third'')]) 1730000000000,
      DeleteItems ''1'',
      PostItems (ObjBody [(''name'', JStr ''Fourth'')]) 1730000000001] initial_store))) = 3"
proof -
  let ?rs = "[PostItems (ObjBody [(''name'', JStr ''Third'')]) 1730000000000,
      DeleteItems ''1'',
      PostItems (ObjBody [(''name'', JStr ''Fourth'')]) 1730000000001]"
  have t: "append_times False ?rs = [1730000000000, 1730000000001]"
    by (simp add: accepts_def validateItem_def itemSchema_def trim_def is_space_def)
  have d: "deleted (fst (run False ?rs initial_store)) = 1"
    by (simp add: deleted_def split_beta payload_post_items deleted_delete_items
          ids_post_items ids_initial_store)
  from items_count_order [of False ?rs] t
  have "appended (fst (run False ?rs initial_store)) = 2"
    and "int (length (items (snd (run False ?rs initial_store)))) =
         2 + int (appended (fst (run False ?rs initial_store)))
           - int (deleted (fst (run False ?rs initial_store)))"
    by simp_all
  with t d show ?thesis by simp
qed

subsection \<open>C7: what a replacement touches\<close>

text \<open>
  C7 as stated speaks of every item of the store. It fails for an item that is not the
  first one with its id: in the store left by two appends at the same clock instant, the
  item at position 3 has the id \<open>'1730000000000'\<close>, and \<open>PUT /items/1730000000000\<close> with a
  valid body leaves that item as it was, its name included, and changes the item at
  position 2 instead.
\<close>

theorem put_overwrites_counterexample:
  "has_id ''1730000000000'' (items same_instant_store ! 3)
   \<and> accepts False (ObjBody [(''name'', JStr ''X'')])
   \<and> status (fst (put_items False ''1730000000000'' (ObjBody [(''name'', JStr ''X'')])
        same_instant_store)) = 200
   \<and> items (snd (put_items False ''1730000000000'' (ObjBody [(''name'', JStr ''X'')])
        same_instant_store)) ! 3 = items same_instant_store ! 3
   \<and> map_of (items (snd (put_items False ''1730000000000'' (ObjBody [(''name'', JStr ''X'')])
        same_instant_store)) ! 3) ''name'' = Some (JStr ''B'')
   \<and> items (snd (put_items False ''1730000000000'' (ObjBody [(''name'', JStr ''X'')])
        same_instant_store)) ! 2 \<noteq> items same_instant_store ! 2"
proof -
  have a: "accepts False (ObjBody [(''name'', JStr ''X'')])"
    by (simp add: accepts_def validateItem_def itemSchema_def trim_letter)
  show ?thesis
    unfolding put_same_instant using a by (simp add: same_instant_items has_id_def)
qed

text \<open>
  C7, amended. For every valid request body and every id that an item of the store has,
  \<open>PUT /items/:id\<close> answers 200 with the updated item and overwrites only the fields
  \<open>name\<close> and \<open>done\<close> of the first item with that id, with their validated values: the
  id and every other field of that item are unchanged, the item stays at its position,
  the store keeps its length, and every other item of the store is unchanged.
\<close>

theorem put_overwrites:
  assumes "validateItem (itemSchema joi) b = Inr v"
    and "i < length (items s)" and "has_id pid (items s ! i)"
    and "\<forall>j<i. \<not> has_id pid (items s ! j)"
  shows "status (fst (put_items joi pid b s)) = 200
     \<and> payload (fst (put_items joi pid b s)) =
         JObj [(''item'', JObj (items (snd (put_items joi pid b s)) ! i))]
     \<and> items (snd (put_items joi pid b s)) = (items s)[i := spread (items s ! i) v]
     \<and> length (items (snd (put_items joi pid b s))) = length (items s)
     \<and> (\<forall>j<length (items s). j \<noteq> i \<longrightarrow>
          items (snd (put_items joi pid b s)) ! j = items s ! j)
     \<and> map_of (items (snd (put_items joi pid b s)) ! i) ''id'' = Some (JStr pid)
     \<and> (\<forall>k. k \<noteq> ''name'' \<and> k \<noteq> ''done'' \<longrightarrow>
          map_of (items (snd (put_items joi pid b s)) ! i) k = map_of (items s ! i) k)
     \<and> (\<forall>out. v = Some out \<longrightarrow>
          map_of (items (snd (put_items joi pid b s)) ! i) ''name'' = map_of out ''name''
          \<and> map_of (items (snd (put_items joi pid b s)) ! i) ''done'' = map_of out ''done''
          \<and> (\<exists>n d. map_of out ''name'' = Some (JStr n) \<and> map_of out ''done'' = Some (JBool d)))"
proof -
  from assms(2-4) have idx: "findIndex (has_id pid) (items s) = Some i"
    by (simp add: findIndex_Some)
  note put = put_items_replaces [OF assms(1) idx]
  let ?new = "spread (items s ! i) v"
  have its: "items (snd (put_items joi pid b s)) = (items s)[i := ?new]"
    unfolding put by simp
  have at_i: "items (snd (put_items joi pid b s)) ! i = ?new"
    unfolding its using assms(2) by simp
  have st: "status (fst (put_items joi pid b s)) = 200"
    unfolding put by simp
  have pl: "payload (fst (put_items joi pid b s)) =
         JObj [(''item'', JObj (items (snd (put_items joi pid b s)) ! i))]"
    unfolding at_i unfolding put by simp
  have len: "length (items (snd (put_items joi pid b s))) = length (items s)"
    unfolding its by simp
  have others: "\<forall>j<length (items s). j \<noteq> i \<longrightarrow>
          items (snd (put_items joi pid b s)) ! j = items s ! j"
    unfolding its by simp
  have other_keys: "\<forall>k. k \<noteq> ''name'' \<and> k \<noteq> ''done'' \<longrightarrow>
          map_of (items (snd (put_items joi pid b s)) ! i) k = map_of (items s ! i) k"
    unfolding at_i using spread_validated_other [OF assms(1)] by blast
  have id_kept: "map_of (items (snd (put_items joi pid b s)) ! i) ''id'' = Some (JStr pid)"
    using other_keys assms(3) by (simp add: has_id_def)
  have fields: "\<forall>out. v = Some out \<longrightarrow>
          map_of (items (snd (put_items joi pid b s)) ! i) ''name'' = map_of out ''name''
          \<and> map_of (items (snd (put_items joi pid b s)) ! i) ''done'' = map_of out ''done''
          \<and> (\<exists>n d. map_of out ''name'' = Some (JStr n) \<and> map_of out ''done'' = Some (JBool d))"
  proof (intro allI impI)
    fix out assume o: "v = Some out"
    with assms(1) validated_has_fields [of joi b out]
    obtain n d where nd: "map_of out ''name'' = Some (JStr n)" "map_of out ''done'' = Some (JBool d)"
      by auto
    have "map_of ?new ''name'' = map_of out ''name''" "map_of ?new ''done'' = map_of out ''done''"
      using nd o by (simp_all add: map_of_spread)
    with nd show "map_of (items (snd (put_items joi pid b s)) ! i) ''name'' = map_of out ''name''
          \<and> map_of (items (snd (put_items joi pid b s)) ! i) ''done'' = map_of out ''done''
          \<and> (\<exists>n d. map_of out ''name'' = Some (JStr n) \<and> map_of out ''done'' = Some (JBool d))"
      unfolding at_i by simp
  qed
  from st pl its len others id_kept other_keys fields show ?thesis by blast
qed

text \<open>
  An instance of the amended C7: on the fresh server \<open>PUT /items/2\<close> with the body
  \<open>{name: 'X'}\<close> overwrites name and done of the second seed item and leaves the first.
\<close>

theorem put_overwrites_witness:
  "validateItem (itemSchema False) (ObjBody [(''name'', JStr ''X'')]) =
      Inr (Some [(''name'', JStr ''X''), (''done'', JBool False)])
   \<and> (1::nat) < length (items initial_store)
   \<and> has_id ''2'' (items initial_store ! 1)
   \<and> \<not> has_id ''2'' (items initial_store ! 0)
   \<and> items (snd (put_items False ''2'' (ObjBody [(''name'', JStr ''X'')]) initial_store)) =
       [ [(''id'', JStr ''1''), (''name'', JStr ''First''), (''done'', JBool False)],
         [(''id'', JStr ''2''), (''name'', JStr ''X''), (''done'', JBool False)] ]"
proof -
  have v: "validateItem (itemSchema False) (ObjBody [(''name'', JStr ''X'')]) =
      Inr (Some [(''name'', JStr ''X''), (''done'', JBool False)])"
    by (simp add: validateItem_def itemSchema_def trim_letter Boolean_def)
  have l: "(1::nat) < length (items initial_store)" by (simp add: initial_store_def)
  have h: "has_id ''2'' (items initial_store ! 1)" by (simp add: initial_store_def has_id_def)
  have f: "\<forall>j<1::nat. \<not> has_id ''2'' (items initial_store ! j)"
    by (simp add: initial_store_def has_id_def)
  from put_overwrites [OF v l h f]
  have "items (snd (put_items False ''2'' (ObjBody [(''name'', JStr ''X'')]) initial_store)) =
      (items initial_store)[1 := spread (items initial_store ! 1)
         (Some [(''name'', JStr ''X''), (''done'', JBool False)])]"
    by blast
  then have "items (snd (put_items False ''2'' (ObjBody [(''name'', JStr ''X'')]) initial_store)) =
       [ [(''id'', JStr ''1''), (''name'', JStr ''First''), (''done'', JBool False)],
         [(''id'', JStr ''2''), (''name'', JStr ''X''), (''done'', JBool False)] ]"
    by (simp add: initial_store_def spread_def)
  with v l h f show ?thesis by simp
qed

subsection \<open>C8: the token check of \<open>/me\<close>\<close>

text \<open>
  C8 as stated promises 200 whenever the header is present. It fails for a header that is
  sent with an empty value: the header is there, and the answer is 401.
\<close>

theorem me_counterexample:
  "map_of [(''x-demo-token'', '''')] ''x-demo-token'' = Some ''''
   \<and> status (fst (get_me [(''x-demo-token'', '''')] initial_store)) = 401"
  by (simp add: get_me_def authStub_def errorHandler_def)

text \<open>
  C8, amended. \<open>GET /me\<close> answers 401 if the \<open>x-demo-token\<close> header is absent or empty;
  otherwise it answers 200 with the user \<open>{id:'user-123', token}\<close> that echoes the
  header's value. The store is unchanged in both cases.
\<close>

theorem me_token:
  "snd (get_me hs s) = s
   \<and> (map_of hs ''x-demo-token'' = None \<or> map_of hs ''x-demo-token'' = Some '''' \<longrightarrow>
        fst (get_me hs s) =
          \<lparr> status = 401, payload = JObj [(''error'', JStr ''missing token'')] \<rparr>)
   \<and> (\<forall>token. map_of hs ''x-demo-token'' = Some token \<and> token \<noteq> '''' \<longrightarrow>
        fst (get_me hs s) =
          \<lparr> status = 200, payload = JObj [(''user'',
              JObj [(''id'', JStr ''user-123''), (''token'', JStr token)])] \<rparr>)"
  by (auto simp: get_me_def authStub_def errorHandler_def split: option.splits)

text \<open>An instance of the amended C8: no header, and the header \<open>abc\<close>.\<close>

theorem me_token_witness:
  "map_of ([] :: headers) ''x-demo-token'' = None
   \<and> fst (get_me [] initial_store) =
        \<lparr> status = 401, payload = JObj [(''error'', JStr ''missing token'')] \<rparr>
   \<and> map_of [(''x-demo-token'', ''abc'')] ''x-demo-token'' = Some ''abc''
   \<and> fst (get_me [(''x-demo-token'', ''abc'')] initial_store) =
        \<lparr> status = 200, payload = JObj [(''user'',
              JObj [(''id'', JStr ''user-123''), (''token'', JStr ''abc'')])] \<rparr>"
  using me_token [of "[]" initial_store] me_token [of "[(''x-demo-token'', ''abc'')]" initial_store]
  by simp

subsection \<open>C9: the seed data\<close>

text \<open>
  C9. On a freshly started server the store holds exactly the two seed items
  \<open>{id:'1', name:'First', done:false}\<close> and \<open>{id:'2', name:'Second', done:true}\<close>; the first
  \<open>GET /items\<close> answers 200 with these two items and leaves the store as it is; and the
  count of the store is offset by the seed: after any sequence of \<open>POST /items\<close> requests
  the store holds two items more than the number of bodies that validation accepted.
\<close>

theorem seed_items:
  "items initial_store =
     [ [(''id'', JStr ''1''), (''name'', JStr ''First''), (''done'', JBool False)],
       [(''id'', JStr ''2''), (''name'', JStr ''Second''), (''done'', JBool True)] ]
   \<and> run joi [GetItems] initial_store =
     ([\<lparr> status = 200, payload = JObj [(''data'', JArr
         [ JObj [(''id'', JStr ''1''), (''name'', JStr ''First''), (''done'', JBool False)],
           JObj [(''id'', JStr ''2''), (''name'', JStr ''Second''), (''done'', JBool True)] ])] \<rparr>],
      initial_store)
   \<and> length (items (snd (run joi (map (\<lambda>(b, now). PostItems b now) ps) initial_store))) =
       2 + length (filter (\<lambda>(b, now). accepts joi b) ps)"
proof -
  have "length (items initial_store) = 2" by (simp add: initial_store_def)
  then show ?thesis
    using run_posts_length [of joi ps initial_store]
    by (simp add: initial_store_def get_items_def)
qed

text \<open>
  An instance of C9: one accepted and one refused \<open>POST /items\<close> on the fresh server
  leave three items.
\<close>

theorem seed_items_witness:
  "length (items (snd (run False
      [PostItems (ObjBody [(''name'', JStr ''Third'')]) 1730000000000,
       PostItems (ObjBody []) 1730000000001] initial_store))) = 3"
proof -
  have a: "accepts False (ObjBody [(''name'', JStr ''Third'')])"
    by (simp add: accepts_def validateItem_def itemSchema_def trim_def is_space_def)
  have b: "\<not> accepts False (ObjBody [])"
    by (simp add: accepts_def validateItem_def itemSchema_def)
  show ?thesis
    using seed_items [of False "[(ObjBody [(''name'', JStr ''Third'')], 1730000000000), (ObjBody [], 1730000000001)]"] a b
    by simp
qed

subsection \<open>C10: validation before the lookup\<close>

text \<open>
  C10. In \<open>PUT /items/:id\<close> the body is validated before the id is looked up: a body that
  fails validation is answered with 400, whether or not the id is in the store, and the
  store is left as it is; the answer is 404 exactly when the body passes validation and no
  item of the store has the id.
\<close>

theorem put_validates_first:
  "(\<not> accepts joi b \<longrightarrow>
      status (fst (put_items joi pid b s)) = 400 \<and> snd (put_items joi pid b s) = s)
   \<and> (status (fst (put_items joi pid b s)) = 404 \<longleftrightarrow>
        accepts joi b \<and> (\<forall>x\<in>set (items s). \<not> has_id pid x))"
proof (cases "accepts joi b")
  case False
  with put_items_refused [of joi b pid s] show ?thesis by simp
next
  case True
  show ?thesis
  proof (cases "\<forall>x\<in>set (items s). \<not> has_id pid x")
    case True
    with \<open>accepts joi b\<close> put_items_unknown [of joi b s pid] show ?thesis by simp
  next
    case False
    with \<open>accepts joi b\<close> put_items_known [of joi b s pid] show ?thesis by simp
  qed
qed

text \<open>
  An instance of C10: on the fresh server an empty body is answered with 400 for the
  unknown id \<open>'9'\<close>, on both validation paths.
\<close>

theorem put_validates_first_witness:
  "\<not> accepts True (ObjBody []) \<and> \<not> accepts False (ObjBody [])
   \<and> status (fst (put_items True ''9'' (ObjBody []) initial_store)) = 400
   \<and> status (fst (put_items False ''9'' (ObjBody []) initial_store)) = 400"
proof -
  have t: "\<not> accepts True (ObjBody [])"
    by (simp add: accepts_def validateItem_def itemSchema_def joi_validate_def)
  have f: "\<not> accepts False (ObjBody [])"
    by (simp add: accepts_def validateItem_def itemSchema_def)
  from put_validates_first [of True "ObjBody []" "''9''" initial_store]
       put_validates_first [of False "ObjBody []" "''9''" initial_store] t f
  show ?thesis by simp
qed

end
